theory Spec2Isabelle
  imports Complex_Main
begin

section \<open>Data model of the tight-binding \<open>Model\<close> class\<close>

text \<open>
  The development embeds \<^verbatim>\<open>z2pack/em/tb/_tb_model.py\<close>. numpy arrays of three
  components (a lattice vector \<open>G\<close>, a supercell dimension, a k-point, an orbital
  position) are triples. Python floats and complex numbers are modelled by the exact
  fields \<open>real\<close> and \<open>complex\<close>: rounding is not part of the model, and the two
  functions of scipy whose floating-point result decides what the code does
  (\<open>la.det\<close> and \<open>la.solve\<close> in \<open>change_uc\<close>) are parameters. Python's integers are
  \<open>int\<close>. numpy's integer arrays hold 64-bit integers, the integers of
  \<open>[-2\<^sup>6\<^sup>3, 2\<^sup>6\<^sup>3)\<close>; their entries are \<open>int\<close> as well. The negation of a lattice
  vector wraps as the 64-bit negation does; the sums and products of integers are taken
  without wrap-around.
\<close>

type_synonym ivec = "int \<times> int \<times> int"
type_synonym rvec = "real \<times> real \<times> real"
type_synonym mat3 = "rvec \<times> rvec \<times> rvec"
type_synonym bvec = "bool \<times> bool \<times> bool"

text \<open>A hopping term \<open>[i0, i1, G, t]\<close>.\<close>

type_synonym hopping = "int \<times> int \<times> ivec \<times> complex"

text \<open>A two-dimensional complex numpy array, as the list of its rows.\<close>

type_synonym cmat = "complex list list"

text \<open>
  The exceptions of the module. The source raises \<open>ValueError\<close> in three places,
  told apart here by constructor: the length check on \<open>pos\<close> in the constructor
  (\<open>PosLengthError\<close>), the \<open>G not found in G_list\<close> branch of \<open>_precompute\<close>
  (\<open>GNotFound\<close>) and the determinant check of \<open>change_uc\<close>, whose message holds the
  determinant (\<open>DetError\<close>). \<open>IndexError\<close> is what Python and numpy raise for an
  index out of range, and what \<open>_pos_to_idx\<close> and \<open>_edge_detect_pos\<close> raise
  themselves. \<open>BroadcastError\<close> is numpy's \<open>ValueError\<close> for operands whose shapes
  do not fit.
\<close>

datatype error = PosLengthError | GNotFound | DetError real | IndexError | BroadcastError

text \<open>
  The attributes of a \<open>Model\<close> object. The three cache attributes do not exist
  before \<open>_precompute\<close> has run; they are empty lists until then.
\<close>

record model =
  uc :: "mat3 option"
  on_site :: "real list"
  pos :: "rvec list"
  hop :: "hopping list"
  occ :: int
  unchanged :: bool
  hamilton_diag :: cmat
  G_list :: "ivec list"
  hamilton_parts :: "cmat list"

subsection \<open>Vector helpers\<close>

text \<open>
  The negation of a 64-bit integer. \<open>-2\<^sup>6\<^sup>3\<close> is the one value whose negative is no
  64-bit integer, and numpy returns it unchanged.
\<close>

definition int64_neg :: "int \<Rightarrow> int" where
  "int64_neg x = (if x = - (2 ^ 63) then - (2 ^ 63) else - x)"

text \<open>\<open>-G\<close> for an integer array \<open>G\<close>.\<close>

fun vneg :: "ivec \<Rightarrow> ivec" where
  "vneg (x, y, z) = (int64_neg x, int64_neg y, int64_neg z)"

fun vadd :: "ivec \<Rightarrow> ivec \<Rightarrow> ivec" where
  "vadd (a, b, c) (x, y, z) = (a + x, b + y, c + z)"

fun vsub :: "ivec \<Rightarrow> ivec \<Rightarrow> ivec" where
  "vsub (a, b, c) (x, y, z) = (a - x, b - y, c - z)"

text \<open>\<open>np.dot(G, k)\<close> for an integer vector and a real one.\<close>

fun vdot :: "ivec \<Rightarrow> rvec \<Rightarrow> real" where
  "vdot (a, b, c) (x, y, z) = of_int a * x + of_int b * y + of_int c * z"

text \<open>
  An index into a sequence of length \<open>n\<close>, as Python lists and numpy arrays read
  it: a negative index counts from the end, and an index outside \<open>[-n, n)\<close> raises
  \<open>IndexError\<close> (\<open>None\<close> here).
\<close>

definition py_index :: "nat \<Rightarrow> int \<Rightarrow> nat option" where
  "py_index n i =
     (if 0 \<le> i \<and> i < int n then Some (nat i)
      else if - int n \<le> i \<and> i < 0 then Some (nat (int n + i))
      else None)"

subsection \<open>Construction and mutation\<close>

text \<open>
  \<open>__setattr__\<close>: an assignment to \<open>_hop\<close> or \<open>_on_site\<close> first clears
  \<open>_unchanged\<close>, so that the Hamiltonian is precomputed again.
\<close>

definition setattr_on_site :: "model \<Rightarrow> real list \<Rightarrow> model" where
  "setattr_on_site m v = (m\<lparr>unchanged := False\<rparr>)\<lparr>on_site := v\<rparr>"

definition setattr_hop :: "model \<Rightarrow> hopping list \<Rightarrow> model" where
  "setattr_hop m v = (m\<lparr>unchanged := False\<rparr>)\<lparr>hop := v\<rparr>"

text \<open>The complex conjugate \<open>[i1, i0, -G, t.conjugate()]\<close> of a hopping term.\<close>

fun conj_hop :: "hopping \<Rightarrow> hopping" where
  "conj_hop (i0, i1, G, t) = (i1, i0, vneg G, cnj t)"

text \<open>
  \<open>Model.__init__(on_site, hop, pos, occ, add_cc, uc)\<close>. An argument that is
  \<open>None\<close> in Python is \<open>None\<close> here.
\<close>

definition Model_init ::
  "real list \<Rightarrow> hopping list \<Rightarrow> rvec list option \<Rightarrow> int option \<Rightarrow> bool \<Rightarrow> mat3 option
     \<Rightarrow> error + model" where
  "Model_init on_site0 hop0 pos0 occ0 add_cc uc0 =
     (case (case pos0 of
              None \<Rightarrow> Inr (map (\<lambda>_. (0, 0, 0)) on_site0)
            | Some ps \<Rightarrow> if length ps = length on_site0 then Inr ps else Inl PosLengthError) of
        Inl e \<Rightarrow> Inl e
      | Inr ps \<Rightarrow>
          Inr \<lparr> uc = uc0,
                on_site = on_site0,
                pos = ps,
                hop = (if add_cc then hop0 @ map conj_hop hop0 else hop0),
                occ = (case occ0 of None \<Rightarrow> int (length on_site0) div 2 | Some n \<Rightarrow> n),
                unchanged = False,
                hamilton_diag = [],
                G_list = [],
                hamilton_parts = [] \<rparr>)"

text \<open>
  \<open>add_hop\<close> is \<open>self._hop.extend(hop)\<close>: the list object is changed in place.
  No attribute is assigned, so \<open>__setattr__\<close> does not run and \<open>_unchanged\<close>
  keeps its value.
\<close>

definition add_hop :: "model \<Rightarrow> hopping list \<Rightarrow> model" where
  "add_hop m hs = m\<lparr>hop := hop m @ hs\<rparr>"

subsection \<open>Hamiltonian assembly\<close>

text \<open>\<open>np.array(np.diag(on_site), dtype=complex)\<close>.\<close>

definition np_diag :: "real list \<Rightarrow> cmat" where
  "np_diag xs =
     map (\<lambda>i. map (\<lambda>j. if i = j then complex_of_real (xs ! i) else 0) [0..<length xs])
       [0..<length xs]"

text \<open>\<open>np.zeros_like\<close> of an array.\<close>

definition zeros_like :: "cmat \<Rightarrow> cmat" where
  "zeros_like M = map (map (\<lambda>_. 0)) M"

text \<open>\<open>M[a, b] += t\<close> for indices already brought into range.\<close>

definition mat_add_at :: "cmat \<Rightarrow> nat \<Rightarrow> nat \<Rightarrow> complex \<Rightarrow> cmat" where
  "mat_add_at M a b t = M[a := (M ! a)[b := M ! a ! b + t]]"

text \<open>\<open>H += P * c\<close> for arrays of one shape.\<close>

definition mat_add_scaled :: "cmat \<Rightarrow> cmat \<Rightarrow> complex \<Rightarrow> cmat" where
  "mat_add_scaled H P c = map2 (\<lambda>hr pr. map2 (\<lambda>h p. h + p * c) hr pr) H P"

text \<open>
  \<open>list(set([tuple(G) for i0, i1, G, t in self._hop]))\<close>: the distinct \<open>G\<close>
  vectors, each once. Python leaves the order of a set open; the model takes the order
  of \<open>remdups\<close>.
\<close>

definition hop_G :: "hopping \<Rightarrow> ivec" where
  "hop_G h = fst (snd (snd h))"

definition distinct_G :: "hopping list \<Rightarrow> ivec list" where
  "distinct_G hs = remdups (map hop_G hs)"

text \<open>
  The inner \<open>for i, G2 in enumerate(self._G_list)\<close> loop: the first index whose
  entry equals \<open>G\<close>, or \<open>None\<close> when the loop ends without \<open>break\<close>.
\<close>

fun find_G :: "ivec list \<Rightarrow> ivec \<Rightarrow> nat option" where
  "find_G [] G = None"
| "find_G (G2 # Gs) G = (if G2 = G then Some 0 else map_option Suc (find_G Gs G))"

text \<open>
  The outer loop of \<open>_precompute\<close> over the hopping terms. \<open>n\<close> is the number of
  rows (and columns) of each part.
\<close>

fun fill_parts :: "nat \<Rightarrow> ivec list \<Rightarrow> hopping list \<Rightarrow> cmat list \<Rightarrow> error + cmat list" where
  "fill_parts n Gs [] parts = Inr parts"
| "fill_parts n Gs ((i0, i1, G, t) # hs) parts =
     (case find_G Gs G of
        None \<Rightarrow> Inl GNotFound
      | Some i \<Rightarrow>
          (case py_index n i0 of
             None \<Rightarrow> Inl IndexError
           | Some a \<Rightarrow>
               (case py_index n i1 of
                  None \<Rightarrow> Inl IndexError
                | Some b \<Rightarrow> fill_parts n Gs hs (parts[i := mat_add_at (parts ! i) a b t]))))"

definition precompute :: "model \<Rightarrow> error + model" where
  "precompute m =
     (let diag = np_diag (on_site m);
          Gs = distinct_G (hop m);
          parts0 = map (\<lambda>_. zeros_like diag) Gs
      in case fill_parts (length (on_site m)) Gs (hop m) parts0 of
           Inl e \<Rightarrow> Inl e
         | Inr parts \<Rightarrow>
             Inr (m\<lparr>hamilton_diag := diag, G_list := Gs, hamilton_parts := parts,
                     unchanged := True\<rparr>))"

text \<open>The phase \<open>np.exp(2j * np.pi * np.dot(G, k))\<close>.\<close>

definition phase :: "ivec \<Rightarrow> rvec \<Rightarrow> complex" where
  "phase G k = exp (2 * \<i> * complex_of_real pi * complex_of_real (vdot G k))"

text \<open>
  The loop \<open>for i, G in enumerate(self._G_list): H += self._hamilton_parts[i] * ...\<close>,
  run from index \<open>i\<close> on.
\<close>

fun sum_parts :: "cmat \<Rightarrow> nat \<Rightarrow> ivec list \<Rightarrow> cmat list \<Rightarrow> rvec \<Rightarrow> cmat" where
  "sum_parts H i [] parts k = H"
| "sum_parts H i (G # Gs) parts k =
     sum_parts (mat_add_scaled H (parts ! i) (phase G k)) (Suc i) Gs parts k"

text \<open>
  \<open>hamilton(k)\<close>: the matrix returned and the object afterwards (the cache may have
  been written).
\<close>

definition hamilton :: "model \<Rightarrow> rvec \<Rightarrow> error + (cmat \<times> model)" where
  "hamilton m k =
     (case (if \<not> unchanged m then precompute m else Inr m) of
        Inl e \<Rightarrow> Inl e
      | Inr m' \<Rightarrow>
          Inr (sum_parts (hamilton_diag m') 0 (G_list m') (hamilton_parts m') k, m'))"

subsection \<open>Supercells\<close>

text \<open>The helper \<open>_pos_to_idx(pos, dim)\<close>.\<close>

fun pos_to_idx :: "ivec \<Rightarrow> ivec \<Rightarrow> error + int" where
  "pos_to_idx (p0, p1, p2) (d0, d1, d2) =
     (if d0 \<le> p0 \<or> d1 \<le> p1 \<or> d2 \<le> p2 then Inl IndexError
      else Inr (((p0 * d1) + p1) * d2 + p2))"

text \<open>
  The helper \<open>_edge_detect_pos(pos, dim)\<close>: for each axis the pair
  \<open>[pos[i] == 0, pos[i] == dim[i] - 1]\<close>.
\<close>

type_synonym edges = "(bool \<times> bool) \<times> (bool \<times> bool) \<times> (bool \<times> bool)"

fun edge_detect_pos :: "ivec \<Rightarrow> ivec \<Rightarrow> error + edges" where
  "edge_detect_pos (p0, p1, p2) (d0, d1, d2) =
     (if d0 \<le> p0 \<or> d1 \<le> p1 \<or> d2 \<le> p2 then Inl IndexError
      else Inr ((p0 = 0, p0 = d0 - 1), (p1 = 0, p1 = d1 - 1), (p2 = 0, p2 = d2 - 1)))"

text \<open>
  The local function \<open>full_idx(uc_pos, orbital_idx)\<close> of \<open>supercell\<close>; \<open>n\<close> is
  \<open>len(self._on_site)\<close>.
\<close>

definition full_idx :: "nat \<Rightarrow> ivec \<Rightarrow> ivec \<Rightarrow> int \<Rightarrow> error + int" where
  "full_idx n dims uc_pos orbital_idx =
     (case pos_to_idx uc_pos dims of
        Inl e \<Rightarrow> Inl e
      | Inr uc_idx \<Rightarrow> Inr (uc_idx * int n + orbital_idx))"

text \<open>
  One component of \<open>np.array(full_uc1_pos / dim, dtype=int)\<close>. The module imports
  \<open>division\<close> from \<open>__future__\<close>, so \<open>/\<close> is true division and gives a float;
  the conversion to \<open>int\<close> drops the fractional part, that is, it rounds toward
  zero. The quotient is taken exactly, as the float division is for integers below
  \<open>2\<^sup>5\<^sup>3\<close>. The loops of \<open>supercell\<close> reach this line for positive dimensions only.
\<close>

definition trunc_div :: "int \<Rightarrow> int \<Rightarrow> int" where
  "trunc_div a b = sgn a * sgn b * (\<bar>a\<bar> div \<bar>b\<bar>)"

text \<open>
  The body of the hopping loop of \<open>supercell\<close> for the sub-unit-cell \<open>uc0_pos\<close>
  and one hopping term: \<open>None\<close> when the term is cut (\<open>continue\<close>), the new term
  otherwise. numpy's \<open>%\<close> on integers takes the sign of the divisor, as \<open>mod\<close>
  does.
\<close>

fun supercell_hop :: "nat \<Rightarrow> ivec \<Rightarrow> bvec \<Rightarrow> ivec \<Rightarrow> hopping \<Rightarrow> error + hopping option" where
  "supercell_hop n (d0, d1, d2) (per_x, per_y, per_z) uc0_pos (i0, i1, G, t) =
     (case full_idx n (d0, d1, d2) uc0_pos i0 of
        Inl e \<Rightarrow> Inl e
      | Inr new_i0 \<Rightarrow>
          (case vadd uc0_pos G of
             (f0, f1, f2) \<Rightarrow>
               if (\<not> per_x \<and> (f0 < 0 \<or> d0 \<le> f0)) \<or> (\<not> per_y \<and> (f1 < 0 \<or> d1 \<le> f1))
                  \<or> (\<not> per_z \<and> (f2 < 0 \<or> d2 \<le> f2))
               then Inr None
               else
                 (case full_idx n (d0, d1, d2) (f0 mod d0, f1 mod d1, f2 mod d2) i1 of
                    Inl e \<Rightarrow> Inl e
                  | Inr new_i1 \<Rightarrow>
                      Inr (Some (new_i0, new_i1,
                                 (trunc_div f0 d0, trunc_div f1 d1, trunc_div f2 d2), t)))))"

text \<open>
  The three nested loops \<open>for i in range(nx): for j in range(ny): for k in range(nz)\<close>:
  the sub-unit-cells in the order the loops visit them.
\<close>

fun sub_cells :: "ivec \<Rightarrow> ivec list" where
  "sub_cells (nx, ny, nz) =
     concat (map (\<lambda>i. concat (map (\<lambda>j. map (\<lambda>k. (i, j, k)) [0..nz - 1]) [0..ny - 1])) [0..nx - 1])"

text \<open>A loop whose body may raise: the results in order, or the first exception.\<close>

fun traverse :: "('a \<Rightarrow> error + 'b) \<Rightarrow> 'a list \<Rightarrow> error + 'b list" where
  "traverse f [] = Inr []"
| "traverse f (x # xs) =
     (case f x of
        Inl e \<Rightarrow> Inl e
      | Inr y \<Rightarrow> (case traverse f xs of Inl e \<Rightarrow> Inl e | Inr ys \<Rightarrow> Inr (y # ys)))"

text \<open>
  \<open>tmp_on_site += np.array(passivation(...), dtype=float)\<close>: an array of the same
  length is added entry by entry, an array of length one is broadcast, any other
  length is numpy's \<open>ValueError\<close>.
\<close>

definition np_iadd :: "real list \<Rightarrow> real list \<Rightarrow> error + real list" where
  "np_iadd xs ys =
     (if length ys = length xs then Inr (map2 (+) xs ys)
      else if length ys = 1 then Inr (map (\<lambda>x. x + hd ys) xs)
      else Inl BroadcastError)"

type_synonym passivation = "bool \<times> bool \<Rightarrow> bool \<times> bool \<Rightarrow> bool \<times> bool \<Rightarrow> real list"

fun rdiv :: "rvec \<Rightarrow> ivec \<Rightarrow> rvec" where
  "rdiv (x, y, z) (a, b, c) = (x / of_int a, y / of_int b, z / of_int c)"

fun radd :: "rvec \<Rightarrow> rvec \<Rightarrow> rvec" where
  "radd (a, b, c) (x, y, z) = (a + x, b + y, c + z)"

fun rvec_of :: "ivec \<Rightarrow> rvec" where
  "rvec_of (a, b, c) = (of_int a, of_int b, of_int c)"

text \<open>\<open>self._uc * dim\<close>: numpy multiplies every row of the matrix by \<open>dim\<close>, entry by entry.\<close>

fun uc_times_dim :: "mat3 \<Rightarrow> ivec \<Rightarrow> mat3" where
  "uc_times_dim ((a0, a1, a2), (b0, b1, b2), (c0, c1, c2)) (d0, d1, d2) =
     ((a0 * of_int d0, a1 * of_int d1, a2 * of_int d2),
      (b0 * of_int d0, b1 * of_int d1, b2 * of_int d2),
      (c0 * of_int d0, c1 * of_int d1, c2 * of_int d2))"

text \<open>The on-site energies of one sub-unit-cell of the supercell.\<close>

definition cell_on_site :: "real list \<Rightarrow> passivation \<Rightarrow> ivec \<Rightarrow> ivec \<Rightarrow> error + real list" where
  "cell_on_site ons passiv dims c =
     (case edge_detect_pos c dims of
        Inl e \<Rightarrow> Inl e
      | Inr (ex, ey, ez) \<Rightarrow> np_iadd ons (passiv ex ey ez))"

text \<open>\<open>supercell(dim, periodic, passivation)\<close>.\<close>

definition supercell :: "model \<Rightarrow> ivec \<Rightarrow> bvec \<Rightarrow> passivation option \<Rightarrow> error + model" where
  "supercell m dims periodic passivation0 =
     (let new_occ = (fst dims + fst (snd dims) + snd (snd dims)) * occ m;
          new_uc = map_option (\<lambda>u. uc_times_dim u dims) (uc m);
          reduced_pos = map (\<lambda>p. rdiv p dims) (pos m);
          new_pos = concat (map (\<lambda>c. map (\<lambda>p. radd (rdiv (rvec_of c) dims) p) reduced_pos)
                              (sub_cells dims))
      in case traverse (\<lambda>(c, h). supercell_hop (length (on_site m)) dims periodic c h)
                (concat (map (\<lambda>c. map (\<lambda>h. (c, h)) (hop m)) (sub_cells dims))) of
           Inl e \<Rightarrow> Inl e
         | Inr hs \<Rightarrow>
             (let new_hop = List.map_filter (\<lambda>r. r) hs;
                  passiv = (case passivation0 of
                              None \<Rightarrow> (\<lambda>x y z. replicate (length (on_site m)) 0)
                            | Some f \<Rightarrow> f)
              in case traverse (cell_on_site (on_site m) passiv dims) (sub_cells dims) of
                   Inl e \<Rightarrow> Inl e
                 | Inr ons \<Rightarrow>
                     Model_init (concat ons) new_hop (Some new_pos) (Some new_occ) False new_uc))"

subsection \<open>Time reversal\<close>

text \<open>
  \<open>trs()\<close>. \<open>np.hstack\<close> joins the two on-site arrays. \<open>np.vstack([pos, pos])\<close>
  first makes each operand two-dimensional: a list of \<open>N \<ge> 1\<close> positions is an
  \<open>N \<times> 3\<close> array and the result is the \<open>2N \<times> 3\<close> array of the positions twice
  over; an empty list becomes an array of shape \<open>(1, 0)\<close>, so the result has shape
  \<open>(2, 0)\<close> and \<open>len\<close> 2. A model has as many positions as orbitals, so in that case the
  constructor compares 2 with the length 0 of the joined on-site array and raises.
\<close>

fun trs_hop :: "int \<Rightarrow> hopping \<Rightarrow> hopping" where
  "trs_hop idx_offset (i0, i1, G, t) = (i1 + idx_offset, i0 + idx_offset, vneg G, t)"

definition trs :: "model \<Rightarrow> error + model" where
  "trs m =
     (let new_occ = occ m * 2;
          new_on_site = on_site m @ on_site m;
          idx_offset = int (length (on_site m));
          new_hop = hop m @ map (trs_hop idx_offset) (hop m)
      in if pos m = [] then Inl PosLengthError
         else Model_init new_on_site new_hop (Some (pos m @ pos m)) (Some new_occ) False (uc m))"

subsection \<open>Change of unit cell\<close>

text \<open>
  A \<open>3 \<times> 3\<close> matrix is the triple of its rows. \<open>det3\<close> is its determinant, exactly.
  scipy's \<open>la.det\<close> computes the determinant in floating point from a factorisation and
  need not return this number: for \<open>[[2,3,0],[1,2,0],[0,0,1]]\<close>, of determinant 1, it
  returns \<open>0.9999999999999998\<close>. On the identity matrix, and on a diagonal matrix of
  small integers, the two agree.
\<close>

fun det3 :: "mat3 \<Rightarrow> real" where
  "det3 ((a, b, c), (d, e, f), (g, h, i)) =
     a * (e * i - f * h) - b * (d * i - f * g) + c * (d * h - e * g)"

fun mat3_vec :: "mat3 \<Rightarrow> rvec \<Rightarrow> rvec" where
  "mat3_vec ((a, b, c), (d, e, f), (g, h, i)) (x, y, z) =
     (a * x + b * y + c * z, d * x + e * y + f * z, g * x + h * y + i * z)"

text \<open>\<open>np.dot(A, B)\<close> for two \<open>3 \<times> 3\<close> matrices.\<close>

fun mat3_mul :: "mat3 \<Rightarrow> mat3 \<Rightarrow> mat3" where
  "mat3_mul ((a, b, c), (d, e, f), (g, h, i)) ((r, s, t), (u, v, w), (x, y, z)) =
     ((a * r + b * u + c * x, a * s + b * v + c * y, a * t + b * w + c * z),
      (d * r + e * u + f * x, d * s + e * v + f * y, d * t + e * w + f * z),
      (g * r + h * u + i * x, g * s + h * v + i * y, g * t + h * w + i * z))"

text \<open>
  The solution \<open>x\<close> of \<open>uc \<cdot> x = p\<close>, exactly, by Cramer's rule. scipy's
  \<open>la.solve(uc, p)\<close> computes it in floating point; on the identity matrix it returns
  \<open>p\<close>, as \<open>solve3\<close> does.
\<close>

fun solve3 :: "mat3 \<Rightarrow> rvec \<Rightarrow> rvec" where
  "solve3 ((a, b, c), (d, e, f), (g, h, i)) (x, y, z) =
     (det3 ((x, b, c), (y, e, f), (z, h, i)) / det3 ((a, b, c), (d, e, f), (g, h, i)),
      det3 ((a, x, c), (d, y, f), (g, z, i)) / det3 ((a, b, c), (d, e, f), (g, h, i)),
      det3 ((a, b, x), (d, e, y), (g, h, z)) / det3 ((a, b, c), (d, e, f), (g, h, i)))"

text \<open>\<open>np.array(np.floor(p), dtype=int)\<close> and \<open>p % 1\<close>.\<close>

fun vfloor :: "rvec \<Rightarrow> ivec" where
  "vfloor (x, y, z) = (\<lfloor>x\<rfloor>, \<lfloor>y\<rfloor>, \<lfloor>z\<rfloor>)"

fun vfrac :: "rvec \<Rightarrow> rvec" where
  "vfrac (x, y, z) = (frac x, frac y, frac z)"

text \<open>\<open>xs[i]\<close> on a Python list.\<close>

definition py_nth :: "'a list \<Rightarrow> int \<Rightarrow> error + 'a" where
  "py_nth xs i = (case py_index (length xs) i of None \<Rightarrow> Inl IndexError | Some j \<Rightarrow> Inr (xs ! j))"

text \<open>One element \<open>[i0, i1, G + pos_offset[i1] - pos_offset[i0], t]\<close> of \<open>new_hop\<close>.\<close>

fun change_uc_hop :: "ivec list \<Rightarrow> hopping \<Rightarrow> error + hopping" where
  "change_uc_hop pos_offset (i0, i1, G, t) =
     (case py_nth pos_offset i1 of
        Inl e \<Rightarrow> Inl e
      | Inr o1 \<Rightarrow>
          (case py_nth pos_offset i0 of
             Inl e \<Rightarrow> Inl e
           | Inr o0 \<Rightarrow> Inr (i0, i1, vsub (vadd G o1) o0, t)))"

text \<open>
  \<open>change_uc(uc)\<close>; \<open>new\<close> is the argument \<open>uc\<close>. The functions \<open>la.det\<close> and
  \<open>la.solve\<close> belong to scipy and not to the repository; they are the parameters
  \<open>la_det\<close> and \<open>la_solve\<close>, and what is proved of \<open>change_uc_with\<close> for every
  \<open>la_det\<close> and \<open>la_solve\<close> holds of the code whatever scipy computes. The source calls
  \<open>la.det(uc)\<close> a second time for the message of the exception. It calls \<open>la.solve\<close>
  only after \<open>la.det\<close> has returned 1, when the factorisation has no zero pivot and
  \<open>la.solve\<close> returns.
\<close>

definition change_uc_with ::
  "(mat3 \<Rightarrow> real) \<Rightarrow> (mat3 \<Rightarrow> rvec \<Rightarrow> rvec) \<Rightarrow> model \<Rightarrow> mat3 \<Rightarrow> error + model" where
  "change_uc_with la_det la_solve m new =
     (if la_det new \<noteq> 1 then Inl (DetError (la_det new))
      else
        (let new_uc = map_option (\<lambda>u. mat3_mul u new) (uc m);
             full_new_pos = map (la_solve new) (pos m);
             pos_offset = map vfloor full_new_pos;
             new_pos = map vfrac full_new_pos
         in case traverse (change_uc_hop pos_offset) (hop m) of
              Inl e \<Rightarrow> Inl e
            | Inr new_hop \<Rightarrow>
                Model_init (on_site m) new_hop (Some new_pos) (Some (occ m)) False new_uc))"

text \<open>
  \<open>change_uc\<close> with a determinant and a solve that are exact. It is used for the identity
  matrix, where the floating-point results of scipy are exact.
\<close>

definition change_uc :: "model \<Rightarrow> mat3 \<Rightarrow> error + model" where
  "change_uc m new = change_uc_with det3 solve3 m new"

section \<open>Notions used to state the properties\<close>

text \<open>The matrix a call of \<open>hamilton\<close> returns, or the exception it raises.\<close>

definition hamilton_result :: "model \<Rightarrow> rvec \<Rightarrow> error + cmat" where
  "hamilton_result m k = (case hamilton m k of Inl e \<Rightarrow> Inl e | Inr (H, m') \<Rightarrow> Inr H)"

text \<open>
  The reference behaviour the cache is measured against: the Bloch decomposition is
  built again from the current attributes on every call.
\<close>

definition hamilton_rebuild :: "model \<Rightarrow> rvec \<Rightarrow> error + cmat" where
  "hamilton_rebuild m k = hamilton_result (m\<lparr>unchanged := False\<rparr>) k"

text \<open>
  The cache of an object is valid when it is marked stale, or when it holds what
  \<open>_precompute\<close> computes from the current attributes.
\<close>

definition cache_valid :: "model \<Rightarrow> bool" where
  "cache_valid m = (unchanged m \<longrightarrow> precompute m = Inr m)"

text \<open>An \<open>n \<times> n\<close> array.\<close>

definition is_mat :: "nat \<Rightarrow> cmat \<Rightarrow> bool" where
  "is_mat n M = (length M = n \<and> list_all (\<lambda>r. length r = n) M)"

text \<open>A hopping term whose orbital indices satisfy \<open>0 \<le> i0, i1 < n\<close>.\<close>

definition in_range :: "nat \<Rightarrow> hopping \<Rightarrow> bool" where
  "in_range n h = (case h of (i0, i1, G, t) \<Rightarrow> 0 \<le> i0 \<and> i0 < int n \<and> 0 \<le> i1 \<and> i1 < int n)"

text \<open>
  A hopping term whose orbital indices Python accepts as indices into a sequence of
  length \<open>n\<close>: \<open>-n \<le> i0, i1 < n\<close>.
\<close>

definition valid_hop :: "nat \<Rightarrow> hopping \<Rightarrow> bool" where
  "valid_hop n h =
     (case h of (i0, i1, G, t) \<Rightarrow> - int n \<le> i0 \<and> i0 < int n \<and> - int n \<le> i1 \<and> i1 < int n)"

text \<open>
  The specification's matrices, entry by entry. \<open>spec_D\<close> is the diagonal matrix of
  the on-site energies. \<open>entry_sum hs G a b\<close> is the entry \<open>(a, b)\<close> of \<open>M_G\<close>: the
  sum of \<open>t\<close> over the hopping terms \<open>(a, b, G, t)\<close> of \<open>hs\<close>.
\<close>

definition spec_D :: "real list \<Rightarrow> nat \<Rightarrow> nat \<Rightarrow> complex" where
  "spec_D ons a b = (if a = b then complex_of_real (ons ! a) else 0)"

definition entry_sum :: "hopping list \<Rightarrow> ivec \<Rightarrow> nat \<Rightarrow> nat \<Rightarrow> complex" where
  "entry_sum hs G a b =
     sum_list (map (\<lambda>(i0, i1, G', t). t)
       (filter (\<lambda>(i0, i1, G', t). G' = G \<and> i0 = int a \<and> i1 = int b) hs))"

text \<open>
  The specification's Hamiltonian \<open>D + \<Sum>\<^sub>G M\<^sub>G \<cdot> exp(2\<pi>i G\<cdot>k)\<close>, the sum taken over
  the set of \<open>G\<close> vectors of the stored hopping terms.
\<close>

definition hamilton_spec :: "model \<Rightarrow> rvec \<Rightarrow> cmat" where
  "hamilton_spec m k =
     map (\<lambda>a. map (\<lambda>b. spec_D (on_site m) a b +
                 (\<Sum>G\<in>hop_G ` set (hop m). entry_sum (hop m) G a b * phase G k))
            [0..<length (on_site m)])
       [0..<length (on_site m)]"




text \<open>The conjugate transpose of a square matrix.\<close>

definition conj_transpose :: "cmat \<Rightarrow> cmat" where
  "conj_transpose M = map (\<lambda>a. map (\<lambda>b. cnj (M ! b ! a)) [0..<length M]) [0..<length M]"

text \<open>The \<open>3 \<times> 3\<close> identity matrix.\<close>

definition identity3 :: mat3 where
  "identity3 = ((1, 0, 0), (0, 1, 0), (0, 0, 1))"

text \<open>
  A hopping term whose two orbital indices are valid indices into the position list
  \<open>ps\<close> and whose two orbitals lie in the same cell: the component-wise floors of
  their positions agree.
\<close>

definition same_cell_hop :: "rvec list \<Rightarrow> hopping \<Rightarrow> bool" where
  "same_cell_hop ps h =
     (case h of (i0, i1, G, t) \<Rightarrow>
        (case py_nth (map vfloor ps) i0 of
           Inl e \<Rightarrow> False
         | Inr o0 \<Rightarrow> py_nth (map vfloor ps) i1 = Inr o0))"

section \<open>Example objects\<close>

text \<open>
  Concrete objects, each the value a call of the constructor returns (or the object a
  later call leaves behind); the theorems that use them say which.
\<close>

definition two_orbitals :: model where
  "two_orbitals =
     \<lparr> uc = None, on_site = [0, 0], pos = [(0, 0, 0), (0, 0, 0)], hop = [], occ = 1,
       unchanged = False, hamilton_diag = [], G_list = [], hamilton_parts = [] \<rparr>"

definition two_orbitals_cached :: model where
  "two_orbitals_cached =
     two_orbitals\<lparr>hamilton_diag := [[0, 0], [0, 0]], G_list := [], hamilton_parts := [],
                  unchanged := True\<rparr>"

definition chain :: model where
  "chain =
     \<lparr> uc = None, on_site = [0], pos = [(0, 0, 0)],
       hop = [(0, 0, (1, 0, 0), 1), (0, 0, (- 1, 0, 0), 1)], occ = 0,
       unchanged = False, hamilton_diag = [], G_list = [], hamilton_parts = [] \<rparr>"

definition chain_supercell :: model where
  "chain_supercell =
     \<lparr> uc = None, on_site = [0, 0], pos = [(0, 0, 0), (1 / 2, 0, 0)],
       hop = [(0, 1, (0, 0, 0), 1), (0, 1, (0, 0, 0), 1),
              (1, 0, (1, 0, 0), 1), (1, 0, (0, 0, 0), 1)], occ = 0,
       unchanged = False, hamilton_diag = [], G_list = [], hamilton_parts = [] \<rparr>"

definition no_orbitals :: model where
  "no_orbitals =
     \<lparr> uc = None, on_site = [], pos = [], hop = [], occ = 0,
       unchanged = False, hamilton_diag = [], G_list = [], hamilton_parts = [] \<rparr>"

definition dangling_hop :: model where
  "dangling_hop =
     \<lparr> uc = None, on_site = [0], pos = [(0, 0, 0)], hop = [(0, 1, (0, 0, 0), 1)], occ = 0,
       unchanged = False, hamilton_diag = [], G_list = [], hamilton_parts = [] \<rparr>"

definition far_orbital :: model where
  "far_orbital =
     \<lparr> uc = None, on_site = [0, 0], pos = [(0, 0, 0), (1, 0, 0)],
       hop = [(0, 1, (0, 0, 0), 1)], occ = 1,
       unchanged = False, hamilton_diag = [], G_list = [], hamilton_parts = [] \<rparr>"

definition far_orbital_rewrapped :: model where
  "far_orbital_rewrapped =
     far_orbital\<lparr>pos := [(0, 0, 0), (0, 0, 0)], hop := [(0, 1, (1, 0, 0), 1)]\<rparr>"


section \<open>Hamiltonian assembly: the Bloch sum\<close>

subsection \<open>Shapes and entries of the arrays\<close>

lemma is_mat_nth: "is_mat n M \<Longrightarrow> a < n \<Longrightarrow> length (M ! a) = n"
  by (simp add: is_mat_def list_all_length)

lemma is_mat_np_diag: "is_mat (length xs) (np_diag xs)"
  by (simp add: is_mat_def np_diag_def list_all_length)

lemma is_mat_zeros_like: "is_mat n M \<Longrightarrow> is_mat n (zeros_like M)"
  by (simp add: is_mat_def zeros_like_def list_all_length)

lemma zeros_like_nth: "is_mat n M \<Longrightarrow> a < n \<Longrightarrow> b < n \<Longrightarrow> zeros_like M ! a ! b = 0"
  by (simp add: is_mat_def zeros_like_def list_all_length)

lemma is_mat_add_at: "is_mat n M \<Longrightarrow> is_mat n (mat_add_at M a b t)"
proof -
  assume M: "is_mat n M"
  have "length (mat_add_at M a b t ! r) = n" if "r < n" for r
    using M that by (cases "r = a") (simp_all add: is_mat_def mat_add_at_def list_all_length)
  then show ?thesis
    using M by (simp add: is_mat_def list_all_length) (simp add: mat_add_at_def)
qed

lemma mat_add_at_nth:
  "is_mat n M \<Longrightarrow> a < n \<Longrightarrow> b < n \<Longrightarrow> a' < n \<Longrightarrow> b' < n \<Longrightarrow>
   mat_add_at M a b t ! a' ! b' = M ! a' ! b' + (if a' = a \<and> b' = b then t else 0)"
  by (auto simp: is_mat_def mat_add_at_def list_all_length nth_list_update)

lemma is_mat_add_scaled: "is_mat n H \<Longrightarrow> is_mat n P \<Longrightarrow> is_mat n (mat_add_scaled H P c)"
  by (auto simp: is_mat_def mat_add_scaled_def list_all_length)

lemma mat_add_scaled_nth:
  "is_mat n H \<Longrightarrow> is_mat n P \<Longrightarrow> a < n \<Longrightarrow> b < n \<Longrightarrow>
   mat_add_scaled H P c ! a ! b = H ! a ! b + P ! a ! b * c"
  by (auto simp: is_mat_def mat_add_scaled_def list_all_length)

lemma find_G_Some: "find_G Gs G = Some i \<Longrightarrow> i < length Gs \<and> Gs ! i = G"
  by (induction Gs arbitrary: i) (auto split: if_splits)

lemma find_G_mem: "G \<in> set Gs \<Longrightarrow> \<exists>i. find_G Gs G = Some i"
  by (induction Gs) auto

lemma py_index_in_range: "0 \<le> i \<Longrightarrow> i < int n \<Longrightarrow> py_index n i = Some (nat i)"
  by (simp add: py_index_def)

lemma entry_sum_Cons:
  "entry_sum ((i0, i1, G', t) # hs) G a b =
     (if G' = G \<and> i0 = int a \<and> i1 = int b then t else 0) + entry_sum hs G a b"
  by (simp add: entry_sum_def)

lemma entry_sum_Nil: "entry_sum [] G a b = 0"
  by (simp add: entry_sum_def)

lemma fill_parts_correct:
  "list_all (in_range n) hs \<Longrightarrow> hop_G ` set hs \<subseteq> set Gs \<Longrightarrow> distinct Gs \<Longrightarrow>
   length parts = length Gs \<Longrightarrow> list_all (is_mat n) parts \<Longrightarrow>
   \<exists>parts'. fill_parts n Gs hs parts = Inr parts' \<and> length parts' = length Gs \<and>
     list_all (is_mat n) parts' \<and>
     (\<forall>i a b. i < length Gs \<longrightarrow> a < n \<longrightarrow> b < n \<longrightarrow>
        parts' ! i ! a ! b = parts ! i ! a ! b + entry_sum hs (Gs ! i) a b)"
proof (induction hs arbitrary: parts)
  case Nil
  then show ?case by (simp add: entry_sum_Nil)
next
  case (Cons h hs)
  obtain i0 i1 G t where h: "h = (i0, i1, G, t)" by (cases h) auto
  from Cons.prems(1) h have hd_rng: "in_range n (i0, i1, G, t)"
    and rest: "list_all (in_range n) hs"
    by simp_all
  from hd_rng have rng: "0 \<le> i0" "i0 < int n" "0 \<le> i1" "i1 < int n"
    by (simp_all add: in_range_def)
  from Cons.prems(2) h have Gin: "G \<in> set Gs" and Gs_rest: "hop_G ` set hs \<subseteq> set Gs"
    by (auto simp: hop_G_def)
  from find_G_mem[OF Gin] obtain i where fi: "find_G Gs G = Some i" by blast
  from find_G_Some[OF fi] have i: "i < length Gs" "Gs ! i = G" by auto
  define a0 where "a0 = nat i0"
  define b0 where "b0 = nat i1"
  have ab: "a0 < n" "b0 < n" "int a0 = i0" "int b0 = i1"
    using rng by (auto simp: a0_def b0_def)
  define parts1 where "parts1 = parts[i := mat_add_at (parts ! i) a0 b0 t]"
  have len1: "length parts1 = length Gs" using Cons.prems(4) by (simp add: parts1_def)
  have mat_i: "is_mat n (parts ! i)"
    using Cons.prems(4,5) i by (simp add: list_all_length)
  have mats1: "list_all (is_mat n) parts1"
    using Cons.prems(4,5) i mat_i
    by (auto simp: parts1_def list_all_length nth_list_update is_mat_add_at)
  from Cons.IH[OF rest Gs_rest Cons.prems(3) len1 mats1]
  obtain parts' where p': "fill_parts n Gs hs parts1 = Inr parts'"
    "length parts' = length Gs" "list_all (is_mat n) parts'"
    "\<forall>j a b. j < length Gs \<longrightarrow> a < n \<longrightarrow> b < n \<longrightarrow>
        parts' ! j ! a ! b = parts1 ! j ! a ! b + entry_sum hs (Gs ! j) a b"
    by blast
  have step: "fill_parts n Gs (h # hs) parts = fill_parts n Gs hs parts1"
    using fi rng by (simp add: h py_index_in_range parts1_def a0_def b0_def)
  have entries: "parts' ! j ! a ! b = parts ! j ! a ! b + entry_sum (h # hs) (Gs ! j) a b"
    if j: "j < length Gs" and a: "a < n" and b: "b < n" for j a b
  proof -
    have e1: "parts' ! j ! a ! b = parts1 ! j ! a ! b + entry_sum hs (Gs ! j) a b"
      using p'(4) j a b by blast
    have e2: "parts1 ! j ! a ! b =
        parts ! j ! a ! b + (if j = i \<and> a = a0 \<and> b = b0 then t else 0)"
    proof (cases "j = i")
      case True
      then show ?thesis
        using Cons.prems(4) i mat_add_at_nth[OF mat_i ab(1) ab(2) a b]
        by (simp add: parts1_def)
    next
      case False
      then show ?thesis by (simp add: parts1_def)
    qed
    have e3: "(j = i) = (G = Gs ! j)"
      using Cons.prems(3) i j by (auto simp: nth_eq_iff_index_eq)
    show ?thesis
      using e1 e2 e3 ab by (auto simp: h entry_sum_Cons)
  qed
  show ?case
    using step p'(1,2,3) entries by auto
qed

subsection \<open>The summation loop and the cache\<close>

lemma sum_parts_entry:
  "is_mat n H \<Longrightarrow> (\<forall>j<length Gs. is_mat n (parts ! (i + j))) \<Longrightarrow> a < n \<Longrightarrow> b < n \<Longrightarrow>
   sum_parts H i Gs parts k ! a ! b =
     H ! a ! b + (\<Sum>j<length Gs. parts ! (i + j) ! a ! b * phase (Gs ! j) k)"
proof (induction Gs arbitrary: H i)
  case Nil
  then show ?case by simp
next
  case (Cons G Gs)
  have P0: "is_mat n (parts ! i)" using Cons.prems(2) by force
  have H1: "is_mat n (mat_add_scaled H (parts ! i) (phase G k))"
    using Cons.prems(1) P0 by (rule is_mat_add_scaled)
  have rest: "\<forall>j<length Gs. is_mat n (parts ! (Suc i + j))"
    using Cons.prems(2) by force
  have "sum_parts H i (G # Gs) parts k ! a ! b =
      mat_add_scaled H (parts ! i) (phase G k) ! a ! b +
        (\<Sum>j<length Gs. parts ! (Suc i + j) ! a ! b * phase (Gs ! j) k)"
    using Cons.IH[OF H1 rest Cons.prems(3,4)] by simp
  also have "mat_add_scaled H (parts ! i) (phase G k) ! a ! b =
      H ! a ! b + parts ! i ! a ! b * phase G k"
    using Cons.prems(1) P0 Cons.prems(3,4) by (rule mat_add_scaled_nth)
  finally show ?case
    by (simp add: sum.lessThan_Suc_shift add.assoc del: sum.lessThan_Suc)
qed

lemma sum_parts_is_mat:
  "is_mat n H \<Longrightarrow> (\<forall>j<length Gs. is_mat n (parts ! (i + j))) \<Longrightarrow>
   is_mat n (sum_parts H i Gs parts k)"
proof (induction Gs arbitrary: H i)
  case Nil
  then show ?case by simp
next
  case (Cons G Gs)
  have P0: "is_mat n (parts ! i)" using Cons.prems(2) by force
  have H1: "is_mat n (mat_add_scaled H (parts ! i) (phase G k))"
    using Cons.prems(1) P0 by (rule is_mat_add_scaled)
  have rest: "\<forall>j<length Gs. is_mat n (parts ! (Suc i + j))"
    using Cons.prems(2) by force
  show ?case using Cons.IH[OF H1 rest] by simp
qed

lemma sum_nth_distinct:
  "distinct Gs \<Longrightarrow> (\<Sum>j<length Gs. f (Gs ! j)) = (\<Sum>G\<in>set Gs. (f G :: complex))"
proof -
  assume d: "distinct Gs"
  have "(\<Sum>j<length Gs. f (Gs ! j)) = sum_list (map f Gs)"
    by (simp add: sum_list_sum_nth atLeast0LessThan)
  also have "\<dots> = (\<Sum>G\<in>set Gs. f G)"
    using d by (simp add: sum_list_distinct_conv_sum_set)
  finally show ?thesis .
qed

lemma distinct_G_props: "distinct (distinct_G hs)" "set (distinct_G hs) = hop_G ` set hs"
  by (simp_all add: distinct_G_def)

lemma precompute_correct:
  assumes rng: "list_all (in_range (length (on_site m))) (hop m)"
  shows "\<exists>parts. precompute m =
            Inr (m\<lparr>hamilton_diag := np_diag (on_site m), G_list := distinct_G (hop m),
                   hamilton_parts := parts, unchanged := True\<rparr>) \<and>
          length parts = length (distinct_G (hop m)) \<and>
          list_all (is_mat (length (on_site m))) parts \<and>
          (\<forall>i a b. i < length (distinct_G (hop m)) \<longrightarrow> a < length (on_site m) \<longrightarrow>
              b < length (on_site m) \<longrightarrow>
              parts ! i ! a ! b = entry_sum (hop m) (distinct_G (hop m) ! i) a b)"
proof -
  let ?n = "length (on_site m)"
  let ?Gs = "distinct_G (hop m)"
  let ?p0 = "map (\<lambda>_. zeros_like (np_diag (on_site m))) ?Gs"
  have z: "is_mat ?n (zeros_like (np_diag (on_site m)))"
    by (rule is_mat_zeros_like) (rule is_mat_np_diag)
  have m0: "list_all (is_mat ?n) ?p0"
    using z by (simp add: list_all_length)
  have sub: "hop_G ` set (hop m) \<subseteq> set ?Gs"
    by (simp add: distinct_G_props)
  from fill_parts_correct[OF rng sub distinct_G_props(1) _ m0]
  obtain parts where p: "fill_parts ?n ?Gs (hop m) ?p0 = Inr parts"
    "length parts = length ?Gs" "list_all (is_mat ?n) parts"
    "\<forall>i a b. i < length ?Gs \<longrightarrow> a < ?n \<longrightarrow> b < ?n \<longrightarrow>
        parts ! i ! a ! b = ?p0 ! i ! a ! b + entry_sum (hop m) (?Gs ! i) a b"
    by auto
  have zero: "?p0 ! i ! a ! b = 0" if "i < length ?Gs" "a < ?n" "b < ?n" for i a b
    using that zeros_like_nth[OF is_mat_np_diag, of a "on_site m" b] by simp
  have "precompute m =
      Inr (m\<lparr>hamilton_diag := np_diag (on_site m), G_list := ?Gs,
             hamilton_parts := parts, unchanged := True\<rparr>)"
    using p(1) by (simp add: precompute_def Let_def)
  then show ?thesis
    using p(2,3,4) zero by auto
qed

lemma hamilton_cached:
  "cache_valid m \<Longrightarrow> precompute m = Inr m' \<Longrightarrow>
   hamilton m k = Inr (sum_parts (hamilton_diag m') 0 (G_list m') (hamilton_parts m') k, m')"
  by (cases "unchanged m") (simp_all add: hamilton_def cache_valid_def)

lemma np_diag_nth: "a < length xs \<Longrightarrow> b < length xs \<Longrightarrow> np_diag xs ! a ! b = spec_D xs a b"
  by (simp add: np_diag_def spec_D_def)

lemma mat_eqI:
  "is_mat n A \<Longrightarrow> is_mat n B \<Longrightarrow> (\<And>a b. a < n \<Longrightarrow> b < n \<Longrightarrow> A ! a ! b = B ! a ! b) \<Longrightarrow> A = B"
proof -
  assume A: "is_mat n A" and B: "is_mat n B"
    and e: "\<And>a b. a < n \<Longrightarrow> b < n \<Longrightarrow> A ! a ! b = B ! a ! b"
  have "A ! a = B ! a" if a: "a < n" for a
  proof (rule nth_equalityI)
    show "length (A ! a) = length (B ! a)"
      using A B a by (simp add: is_mat_nth)
    show "A ! a ! b = B ! a ! b" if "b < length (A ! a)" for b
      using e[OF a] that A a by (simp add: is_mat_nth)
  qed
  then show ?thesis
    using A B by (intro nth_equalityI) (simp_all add: is_mat_def)
qed

lemma is_mat_hamilton_spec: "is_mat (length (on_site m)) (hamilton_spec m k)"
  by (simp add: is_mat_def hamilton_spec_def list_all_length)

lemma hamilton_spec_nth:
  "a < length (on_site m) \<Longrightarrow> b < length (on_site m) \<Longrightarrow>
   hamilton_spec m k ! a ! b =
     spec_D (on_site m) a b + (\<Sum>G\<in>hop_G ` set (hop m). entry_sum (hop m) G a b * phase G k)"
  by (simp add: hamilton_spec_def)

lemma hamilton_result_spec:
  assumes rng: "list_all (in_range (length (on_site m))) (hop m)"
    and cv: "cache_valid m"
  shows "hamilton_result m k = Inr (hamilton_spec m k)"
proof -
  let ?n = "length (on_site m)"
  let ?Gs = "distinct_G (hop m)"
  from precompute_correct[OF rng] obtain parts where
    pc: "precompute m =
            Inr (m\<lparr>hamilton_diag := np_diag (on_site m), G_list := ?Gs,
                   hamilton_parts := parts, unchanged := True\<rparr>)"
    and len: "length parts = length ?Gs"
    and mats: "list_all (is_mat ?n) parts"
    and ent: "\<forall>i a b. i < length ?Gs \<longrightarrow> a < ?n \<longrightarrow> b < ?n \<longrightarrow>
              parts ! i ! a ! b = entry_sum (hop m) (?Gs ! i) a b"
    by blast
  let ?H = "sum_parts (np_diag (on_site m)) 0 ?Gs parts k"
  have res: "hamilton_result m k = Inr ?H"
    using hamilton_cached[OF cv pc, of k] by (simp add: hamilton_result_def)
  have pm: "\<forall>j<length ?Gs. is_mat ?n (parts ! (0 + j))"
    using mats len by (simp add: list_all_length)
  have Hm: "is_mat ?n ?H"
    using is_mat_np_diag pm by (rule sum_parts_is_mat)
  have "?H = hamilton_spec m k"
  proof (rule mat_eqI[OF Hm is_mat_hamilton_spec])
    fix a b assume a: "a < ?n" and b: "b < ?n"
    have "?H ! a ! b = np_diag (on_site m) ! a ! b +
        (\<Sum>j<length ?Gs. parts ! (0 + j) ! a ! b * phase (?Gs ! j) k)"
      using is_mat_np_diag pm a b by (rule sum_parts_entry)
    also have "(\<Sum>j<length ?Gs. parts ! (0 + j) ! a ! b * phase (?Gs ! j) k) =
        (\<Sum>j<length ?Gs. entry_sum (hop m) (?Gs ! j) a b * phase (?Gs ! j) k)"
      using ent a b by simp
    also have "\<dots> = (\<Sum>G\<in>set ?Gs. entry_sum (hop m) G a b * phase G k)"
      using distinct_G_props(1) by (rule sum_nth_distinct)
    finally show "?H ! a ! b = hamilton_spec m k ! a ! b"
      using a b by (simp add: hamilton_spec_nth np_diag_nth distinct_G_props)
  qed
  with res show ?thesis by simp
qed






lemma phase_cis: "phase G k = cis (2 * pi * vdot G k)"
proof -
  have "2 * \<i> * complex_of_real pi * complex_of_real (vdot G k) =
      \<i> * complex_of_real (2 * pi * vdot G k)"
    by simp
  then show ?thesis
    by (simp only: phase_def cis_conv_exp)
qed









lemma phase_zero: "phase (0, 0, 0) k = 1"
  by (cases k) (simp add: phase_def)

lemma phase_half: "phase (1, 0, 0) (1 / 2, 0, 0) = - 1"
  by (simp add: phase_cis)


lemma phase_quarter: "phase (1, 0, 0) (1 / 4, 0, 0) = \<i>"
  by (simp add: phase_cis)

lemmas eval_defs = Model_init_def int64_neg_def hamilton_def hamilton_result_def hamilton_rebuild_def
  precompute_def add_hop_def np_diag_def distinct_G_def hop_G_def zeros_like_def
  py_index_def mat_add_at_def mat_add_scaled_def phase_zero upt_rec

subsection \<open>The branch \<open>G not found in G_list\<close>\<close>

lemma find_G_distinct_G: "h \<in> set hs \<Longrightarrow> find_G (distinct_G hs) (hop_G h) \<noteq> None"
  using find_G_mem[of "hop_G h" "distinct_G hs"] by (auto simp: distinct_G_props)

lemma fill_parts_finds_G:
  "hop_G ` set hs \<subseteq> set Gs \<Longrightarrow> fill_parts n Gs hs parts \<noteq> Inl GNotFound"
proof (induction hs arbitrary: parts)
  case Nil
  then show ?case by simp
next
  case (Cons h hs)
  obtain i0 i1 G t where h: "h = (i0, i1, G, t)" by (cases h) auto
  from Cons.prems h have Gin: "G \<in> set Gs" and sub: "hop_G ` set hs \<subseteq> set Gs"
    by (auto simp: hop_G_def)
  from find_G_mem[OF Gin] obtain i where fi: "find_G Gs G = Some i" by blast
  show ?case
    using Cons.IH[OF sub] fi by (simp add: h split: option.splits)
qed

lemma precompute_finds_G: "precompute m \<noteq> Inl GNotFound"
proof -
  have "fill_parts (length (on_site m)) (distinct_G (hop m)) (hop m)
          (map (\<lambda>_. zeros_like (np_diag (on_site m))) (distinct_G (hop m))) \<noteq> Inl GNotFound"
    by (rule fill_parts_finds_G) (simp add: distinct_G_props)
  then show ?thesis
    by (auto simp: precompute_def Let_def split: sum.splits)
qed

lemma hamilton_finds_G: "hamilton m k \<noteq> Inl GNotFound"
  using precompute_finds_G[of m] by (auto simp: hamilton_def split: sum.splits)

subsection \<open>Positions play no part\<close>

lemma precompute_pos:
  "precompute (m\<lparr>pos := ps\<rparr>) = map_sum id (\<lambda>m'. m'\<lparr>pos := ps\<rparr>) (precompute m)"
  by (simp add: precompute_def Let_def split: sum.splits)

lemma hamilton_pos:
  "hamilton (m\<lparr>pos := ps\<rparr>) k = map_sum id (\<lambda>(H, m'). (H, m'\<lparr>pos := ps\<rparr>)) (hamilton m k)"
  by (cases "unchanged m") (auto simp: hamilton_def precompute_pos split: sum.splits)

section \<open>The derived models\<close>

subsection \<open>Loops that may raise\<close>

lemma traverse_total:
  "(\<And>x. x \<in> set xs \<Longrightarrow> \<exists>y. f x = Inr y \<and> P y) \<Longrightarrow>
   \<exists>ys. traverse f xs = Inr ys \<and> length ys = length xs \<and> list_all P ys"
proof (induction xs)
  case Nil
  then show ?case by simp
next
  case (Cons x xs)
  from Cons.prems[of x] obtain y where y: "f x = Inr y" "P y" by auto
  from Cons.IH Cons.prems obtain ys where
    ys: "traverse f xs = Inr ys" "length ys = length xs" "list_all P ys"
    by auto
  show ?case using y ys by simp
qed

lemma traverse_Inl: "traverse f xs = Inl e \<Longrightarrow> \<exists>x\<in>set xs. f x = Inl e"
  by (induction xs) (auto split: sum.splits)

subsection \<open>Supercells\<close>





declare sub_cells.simps [simp del]

lemma pos_to_idx_in_cell:
  "0 \<le> i \<Longrightarrow> i < nx \<Longrightarrow> 0 \<le> j \<Longrightarrow> j < ny \<Longrightarrow> 0 \<le> k \<Longrightarrow> k < nz \<Longrightarrow>
   pos_to_idx (i, j, k) (nx, ny, nz) = Inr (((i * ny) + j) * nz + k)"
  by simp




subsection \<open>Time reversal\<close>

lemma trs_nonempty:
  assumes "length (pos m) = length (on_site m)" and "on_site m \<noteq> []"
  shows "trs m =
     Inr \<lparr> uc = uc m,
           on_site = on_site m @ on_site m,
           pos = pos m @ pos m,
           hop = hop m @ map (trs_hop (int (length (on_site m)))) (hop m),
           occ = occ m * 2,
           unchanged = False, hamilton_diag = [], G_list = [], hamilton_parts = [] \<rparr>"
proof -
  from assms have "pos m \<noteq> []" by auto
  with assms(1) show ?thesis
    by (simp add: trs_def Model_init_def Let_def)
qed

subsection \<open>Change of unit cell\<close>

lemma traverse_id: "(\<And>x. x \<in> set xs \<Longrightarrow> f x = Inr x) \<Longrightarrow> traverse f xs = Inr xs"
  by (induction xs) simp_all

lemma py_nth_valid:
  "- int (length xs) \<le> i \<Longrightarrow> i < int (length xs) \<Longrightarrow> \<exists>x. py_nth xs i = Inr x"
  by (simp add: py_nth_def py_index_def)

lemma py_nth_Inl: "py_nth xs i = Inl e \<Longrightarrow> e = IndexError"
  by (simp add: py_nth_def split: option.splits)

lemma change_uc_hop_Inl: "change_uc_hop offs h = Inl e \<Longrightarrow> e = IndexError"
  by (cases h) (auto split: sum.splits dest: py_nth_Inl)

lemma change_uc_hop_valid:
  "valid_hop (length offs) h \<Longrightarrow> \<exists>h'. change_uc_hop offs h = Inr h'"
proof -
  assume v: "valid_hop (length offs) h"
  obtain i0 i1 G t where h: "h = (i0, i1, G, t)" by (cases h) auto
  from v h have "- int (length offs) \<le> i0" "i0 < int (length offs)"
    "- int (length offs) \<le> i1" "i1 < int (length offs)"
    by (simp_all add: valid_hop_def)
  then obtain o0 o1 where "py_nth offs i0 = Inr o0" "py_nth offs i1 = Inr o1"
    using py_nth_valid by blast
  then have "change_uc_hop offs h = Inr (i0, i1, vsub (vadd G o1) o0, t)"
    by (simp add: h)
  then show ?thesis by blast
qed

lemma change_uc_hop_invalid:
  "\<not> valid_hop (length offs) h \<Longrightarrow> change_uc_hop offs h = Inl IndexError"
proof -
  assume nv: "\<not> valid_hop (length offs) h"
  obtain i0 i1 G t where h: "h = (i0, i1, G, t)" by (cases h) auto
  show ?thesis
  proof (cases "py_nth offs i1")
    case (Inl e)
    then show ?thesis using py_nth_Inl[OF Inl] by (simp add: h)
  next
    case o1: (Inr o1)
    show ?thesis
    proof (cases "py_nth offs i0")
      case (Inl e)
      then show ?thesis using py_nth_Inl[OF Inl] o1 by (simp add: h)
    next
      case o0: (Inr o0)
      from o1 o0 have "valid_hop (length offs) h"
        by (auto simp: h valid_hop_def py_nth_def py_index_def split: if_splits)
      with nv show ?thesis by simp
    qed
  qed
qed

lemma traverse_first_error:
  "(\<And>x. x \<in> set xs \<Longrightarrow> (\<exists>y. f x = Inr y) \<or> f x = Inl e) \<Longrightarrow>
   \<exists>x\<in>set xs. f x = Inl e \<Longrightarrow> traverse f xs = Inl e"
proof (induction xs)
  case Nil
  then show ?case by simp
next
  case (Cons x xs)
  show ?case
  proof (cases "f x")
    case (Inl e')
    with Cons.prems(1)[of x] show ?thesis by simp
  next
    case (Inr y)
    with Cons.prems(2) have "\<exists>x\<in>set xs. f x = Inl e" by auto
    with Cons.IH Cons.prems(1) have "traverse f xs = Inl e" by auto
    with Inr show ?thesis by simp
  qed
qed

lemma change_uc_det:
  "la_det u \<noteq> 1 \<Longrightarrow> change_uc_with la_det la_solve m u = Inl (DetError (la_det u))"
  by (simp add: change_uc_with_def)

lemma change_uc_unit_det_Inl:
  assumes inv: "length (pos m) = length (on_site m)" and d: "la_det u = 1"
    and e: "change_uc_with la_det la_solve m u = Inl e"
  shows "e = IndexError"
proof -
  let ?offs = "map vfloor (map (la_solve u) (pos m))"
  show ?thesis
  proof (cases "traverse (change_uc_hop ?offs) (hop m)")
    case (Inl e')
    with e d have "e' = e" by (simp add: change_uc_with_def Let_def)
    with traverse_Inl[OF Inl] change_uc_hop_Inl show ?thesis by blast
  next
    case (Inr hs)
    with e d inv show ?thesis
      by (simp add: change_uc_with_def Let_def Model_init_def)
  qed
qed

lemma change_uc_unit_det_valid:
  assumes inv: "length (pos m) = length (on_site m)" and d: "la_det u = 1"
    and v: "list_all (valid_hop (length (on_site m))) (hop m)"
  shows "\<exists>m'. change_uc_with la_det la_solve m u = Inr m'"
proof -
  let ?offs = "map vfloor (map (la_solve u) (pos m))"
  have "\<exists>hs. traverse (change_uc_hop ?offs) (hop m) = Inr hs \<and> length hs = length (hop m) \<and>
          list_all (\<lambda>_. True) hs"
  proof (rule traverse_total)
    fix h assume "h \<in> set (hop m)"
    with v have "valid_hop (length ?offs) h" by (simp add: list_all_iff inv)
    from change_uc_hop_valid[OF this]
    show "\<exists>y. change_uc_hop ?offs h = Inr y \<and> True" by simp
  qed
  then obtain hs where "traverse (change_uc_hop ?offs) (hop m) = Inr hs" by blast
  with d inv show ?thesis
    by (simp add: change_uc_with_def Let_def Model_init_def)
qed

lemma change_uc_unit_det_invalid:
  assumes inv: "length (pos m) = length (on_site m)" and d: "la_det u = 1"
    and nv: "\<not> list_all (valid_hop (length (on_site m))) (hop m)"
  shows "change_uc_with la_det la_solve m u = Inl IndexError"
proof -
  let ?offs = "map vfloor (map (la_solve u) (pos m))"
  from nv obtain h where h: "h \<in> set (hop m)" "\<not> valid_hop (length ?offs) h"
    by (auto simp: list_all_iff inv)
  have "traverse (change_uc_hop ?offs) (hop m) = Inl IndexError"
  proof (rule traverse_first_error)
    fix x assume "x \<in> set (hop m)"
    show "(\<exists>y. change_uc_hop ?offs x = Inr y) \<or> change_uc_hop ?offs x = Inl IndexError"
      using change_uc_hop_Inl[of ?offs x] by (cases "change_uc_hop ?offs x") auto
  next
    from h change_uc_hop_invalid[OF h(2)]
    show "\<exists>x\<in>set (hop m). change_uc_hop ?offs x = Inl IndexError" by blast
  qed
  with d show ?thesis
    by (simp add: change_uc_with_def Let_def)
qed

lemma det3_identity3: "det3 identity3 = 1"
  by (simp add: identity3_def)

lemma solve3_identity3: "solve3 identity3 p = p"
  by (cases p) (simp add: identity3_def)

lemma vsub_vadd: "vsub (vadd G v) v = G"
  by (cases G; cases v) simp

lemma change_uc_hop_same_cell:
  "same_cell_hop ps h \<Longrightarrow> change_uc_hop (map vfloor ps) h = Inr h"
  by (cases h) (auto simp: same_cell_hop_def vsub_vadd split: sum.splits)

lemma precompute_unchanged: "precompute (m\<lparr>unchanged := b\<rparr>) = precompute m"
  by (simp add: precompute_def Let_def split: sum.splits)

lemma hamilton_result_cache_valid:
  "cache_valid m \<Longrightarrow> hamilton_result m k = hamilton_rebuild m k"
proof (cases "unchanged m")
  case True
  assume "cache_valid m"
  with True have p: "precompute m = Inr m" by (simp add: cache_valid_def)
  then show ?thesis
    using True
    by (simp add: hamilton_result_def hamilton_rebuild_def hamilton_def precompute_unchanged)
next
  case False
  then have "m\<lparr>unchanged := False\<rparr> = m" by simp
  then show ?thesis by (simp add: hamilton_rebuild_def)
qed

lemma hamilton_rebuild_cong:
  "on_site m1 = on_site m2 \<Longrightarrow> hop m1 = hop m2 \<Longrightarrow> hamilton_rebuild m1 k = hamilton_rebuild m2 k"
  by (simp add: hamilton_rebuild_def hamilton_result_def hamilton_def precompute_def Let_def
      split: sum.splits)

lemma change_uc_identity_result:
  assumes inv: "length (pos m) = length (on_site m)"
    and sc: "list_all (same_cell_hop (pos m)) (hop m)"
  shows "change_uc m identity3 =
     Inr \<lparr> uc = map_option (\<lambda>u. mat3_mul u identity3) (uc m),
           on_site = on_site m, pos = map vfrac (pos m), hop = hop m, occ = occ m,
           unchanged = False, hamilton_diag = [], G_list = [], hamilton_parts = [] \<rparr>"
proof -
  have sol: "map (solve3 identity3) (pos m) = pos m"
    by (simp add: solve3_identity3 map_idI)
  have "traverse (change_uc_hop (map vfloor (pos m))) (hop m) = Inr (hop m)"
  proof (rule traverse_id)
    fix h assume "h \<in> set (hop m)"
    with sc have "same_cell_hop (pos m) h" by (simp add: list_all_iff)
    then show "change_uc_hop (map vfloor (pos m)) h = Inr h"
      by (rule change_uc_hop_same_cell)
  qed
  then show ?thesis
    using inv
    by (simp add: change_uc_def change_uc_with_def det3_identity3 sol Let_def Model_init_def)
qed

lemma change_uc_identity_hamilton:
  assumes inv: "length (pos m) = length (on_site m)"
    and sc: "list_all (same_cell_hop (pos m)) (hop m)"
    and cv: "cache_valid m"
  shows "\<exists>m'. change_uc m identity3 = Inr m' \<and> hamilton_result m' k = hamilton_result m k"
proof -
  let ?m' = "\<lparr> uc = map_option (\<lambda>u. mat3_mul u identity3) (uc m),
           on_site = on_site m, pos = map vfrac (pos m), hop = hop m, occ = occ m,
           unchanged = False, hamilton_diag = [], G_list = [], hamilton_parts = [] \<rparr>"
  have r: "change_uc m identity3 = Inr ?m'"
    using inv sc by (rule change_uc_identity_result)
  have "cache_valid ?m'" by (simp add: cache_valid_def)
  then have "hamilton_result ?m' k = hamilton_rebuild ?m' k"
    by (rule hamilton_result_cache_valid)
  also have "\<dots> = hamilton_rebuild m k"
    by (rule hamilton_rebuild_cong) simp_all
  also have "\<dots> = hamilton_result m k"
    using cv by (simp add: hamilton_result_cache_valid)
  finally show ?thesis using r by blast
qed


section \<open>Supporting facts\<close>

subsection \<open>The cache flag\<close>

text \<open>
  Once the cache is marked valid, \<open>add_hop\<close> has no effect on what \<open>hamilton\<close> returns;
  an assignment to the attribute would have one. The constructor returns an object with
  a valid cache and as many positions as orbitals, and \<open>hamilton\<close> keeps both.
\<close>

lemma add_hop_ignored_when_cached:
  "unchanged m \<Longrightarrow> hamilton_result (add_hop m hs) k = hamilton_result m k"
  by (simp add: hamilton_result_def hamilton_def add_hop_def)

lemma setattr_hop_rebuilds:
  "hamilton_result (setattr_hop m (hop m @ hs)) k = hamilton_rebuild (add_hop m hs) k"
  by (cases m) (simp add: setattr_hop_def hamilton_rebuild_def add_hop_def)

lemma Model_init_invariant:
  "Model_init on_site0 hop0 pos0 occ0 add_cc uc0 = Inr m \<Longrightarrow>
   length (pos m) = length (on_site m) \<and> cache_valid m"
  by (auto simp: Model_init_def cache_valid_def split: option.splits if_splits)

lemma Model_init_pos_only:
  "Model_init on_site0 hop0 pos1 occ0 add_cc uc0 = Inr m1 \<Longrightarrow>
   Model_init on_site0 hop0 pos2 occ0 add_cc uc0 = Inr m2 \<Longrightarrow>
   m2 = m1\<lparr>pos := pos m2\<rparr>"
  by (auto simp: Model_init_def split: option.splits if_splits)

lemma hamilton_returns:
  "list_all (in_range (length (on_site m))) (hop m) \<Longrightarrow> cache_valid m \<Longrightarrow>
   \<exists>H m'. hamilton m k = Inr (H, m')"
  using hamilton_result_spec[of m k]
  by (auto simp: hamilton_result_def split: sum.splits)

lemma precompute_idem: "precompute m = Inr m' \<Longrightarrow> precompute m' = Inr m'"
  by (auto simp: precompute_def Let_def split: sum.splits)

lemma hamilton_keeps_cache_valid:
  assumes "cache_valid m" and "hamilton m k = Inr (H, m')"
  shows "cache_valid m' \<and> unchanged m' \<and> on_site m' = on_site m \<and> hop m' = hop m \<and>
         pos m' = pos m \<and> occ m' = occ m \<and> uc m' = uc m"
proof (cases "unchanged m")
  case True
  with assms show ?thesis by (auto simp: hamilton_def)
next
  case False
  with assms(2) have p: "precompute m = Inr m'"
    by (auto simp: hamilton_def split: sum.splits)
  then have "precompute m' = Inr m'" by (rule precompute_idem)
  moreover from p have "unchanged m' \<and> on_site m' = on_site m \<and> hop m' = hop m \<and>
         pos m' = pos m \<and> occ m' = occ m \<and> uc m' = uc m"
    by (auto simp: precompute_def Let_def split: sum.splits)
  ultimately show ?thesis by (simp add: cache_valid_def)
qed

subsection \<open>The quotient in the supercell\<close>

text \<open>
  The quotient the supercell takes and the remainder it wraps to fit together exactly
  when the unwrapped destination is not negative or is a multiple of the dimension.
\<close>

lemma trunc_div_nonneg: "0 \<le> a \<Longrightarrow> 0 < b \<Longrightarrow> trunc_div a b = a div b"
  by (cases "a = 0") (simp_all add: trunc_div_def)

lemma trunc_div_neg: "a < 0 \<Longrightarrow> 0 < b \<Longrightarrow> trunc_div a b = - ((- a) div b)"
  by (simp add: trunc_div_def)

lemma trunc_div_mod_iff:
  assumes "0 < b"
  shows "trunc_div a b * b + a mod b = a \<longleftrightarrow> 0 \<le> a \<or> a mod b = 0"
proof (cases "0 \<le> a")
  case True
  then show ?thesis using assms by (simp add: trunc_div_nonneg)
next
  case False
  then have neg: "a < 0" by simp
  have td: "trunc_div a b = - ((- a) div b)"
    using neg assms by (rule trunc_div_neg)
  show ?thesis
  proof (cases "a mod b = 0")
    case True
    then have "(- a) div b = - (a div b)"
      using assms by (simp add: zdiv_zminus1_eq_if)
    moreover have "a div b * b + a mod b = a" by simp
    ultimately show ?thesis using True by (simp add: td)
  next
    case nz: False
    then have "(- a) div b = - (a div b) - 1"
      using assms by (simp add: zdiv_zminus1_eq_if)
    then have "trunc_div a b * b + a mod b = (a div b + 1) * b + a mod b"
      by (simp add: td)
    also have "\<dots> = a + b"
      by (simp add: algebra_simps)
    finally show ?thesis using assms neg nz by simp
  qed
qed

lemma supercell_hop_quotient:
  assumes d: "0 < d0" "0 < d1" "0 < d2"
    and r: "supercell_hop n (d0, d1, d2) periodic uc0 (i0, i1, G, t) = Inr (Some (j0, j1, (g0, g1, g2), t'))"
    and f: "vadd uc0 G = (f0, f1, f2)"
  shows "t' = t \<and> g0 = trunc_div f0 d0 \<and> g1 = trunc_div f1 d1 \<and> g2 = trunc_div f2 d2 \<and>
         full_idx n (d0, d1, d2) (f0 mod d0, f1 mod d1, f2 mod d2) i1 = Inr j1 \<and>
         ((g0 * d0 + f0 mod d0, g1 * d1 + f1 mod d1, g2 * d2 + f2 mod d2) = (f0, f1, f2)
            \<longleftrightarrow> (0 \<le> f0 \<or> f0 mod d0 = 0) \<and> (0 \<le> f1 \<or> f1 mod d1 = 0) \<and>
                (0 \<le> f2 \<or> f2 mod d2 = 0))"
proof -
  obtain px py pz where pp: "periodic = (px, py, pz)" by (cases periodic) auto
  from r f have g: "t' = t" "g0 = trunc_div f0 d0" "g1 = trunc_div f1 d1" "g2 = trunc_div f2 d2"
    and j: "full_idx n (d0, d1, d2) (f0 mod d0, f1 mod d1, f2 mod d2) i1 = Inr j1"
    by (auto simp: pp split: sum.splits if_splits)
  show ?thesis
    using g j trunc_div_mod_iff[OF d(1), of f0] trunc_div_mod_iff[OF d(2), of f1]
      trunc_div_mod_iff[OF d(3), of f2]
    by simp
qed

subsection \<open>The linear solve\<close>

text \<open>For a matrix with a determinant other than 0, \<open>solve3\<close> is the solution and the only one.\<close>

lemma solve3_solves: "det3 A \<noteq> 0 \<Longrightarrow> mat3_vec A (solve3 A p) = p"
proof -
  assume nz: "det3 A \<noteq> 0"
  obtain a b c d e f g h i where A: "A = ((a, b, c), (d, e, f), (g, h, i))"
    by (metis prod_cases3)
  obtain x y z where p: "p = (x, y, z)" by (cases p) auto
  define D where "D = det3 A"
  define N1 where "N1 = det3 ((x, b, c), (y, e, f), (z, h, i))"
  define N2 where "N2 = det3 ((a, x, c), (d, y, f), (g, z, i))"
  define N3 where "N3 = det3 ((a, b, x), (d, e, y), (g, h, z))"
  have D: "D \<noteq> 0" using nz by (simp add: D_def)
  have s: "solve3 A p = (N1 / D, N2 / D, N3 / D)"
    by (simp add: A p D_def N1_def N2_def N3_def)
  have r1: "a * N1 + b * N2 + c * N3 = x * D"
    and r2: "d * N1 + e * N2 + f * N3 = y * D"
    and r3: "g * N1 + h * N2 + i * N3 = z * D"
    by (simp_all add: A D_def N1_def N2_def N3_def algebra_simps)
  have q: "(u * N1 + v * N2 + w * N3) / D = u * (N1 / D) + v * (N2 / D) + w * (N3 / D)"
    for u v w
    by (simp add: add_divide_distrib)
  have "a * (N1 / D) + b * (N2 / D) + c * (N3 / D) = x"
    "d * (N1 / D) + e * (N2 / D) + f * (N3 / D) = y"
    "g * (N1 / D) + h * (N2 / D) + i * (N3 / D) = z"
    using D r1 r2 r3 q[symmetric] by simp_all
  then show ?thesis
    by (simp add: s) (simp add: A p)
qed

lemma solve3_unique: "det3 A \<noteq> 0 \<Longrightarrow> mat3_vec A q = p \<Longrightarrow> q = solve3 A p"
proof -
  assume nz: "det3 A \<noteq> 0" and e: "mat3_vec A q = p"
  obtain a b c d e f g h i where A: "A = ((a, b, c), (d, e, f), (g, h, i))"
    by (metis prod_cases3)
  obtain x y z where q: "q = (x, y, z)" by (cases q) auto
  define D where "D = det3 A"
  have D: "D \<noteq> 0" using nz by (simp add: D_def)
  let ?p1 = "a * x + b * y + c * z"
  let ?p2 = "d * x + e * y + f * z"
  let ?p3 = "g * x + h * y + i * z"
  have p: "p = (?p1, ?p2, ?p3)"
    using e by (simp add: A q)
  have r1: "det3 ((?p1, b, c), (?p2, e, f), (?p3, h, i)) = x * D"
    and r2: "det3 ((a, ?p1, c), (d, ?p2, f), (g, ?p3, i)) = y * D"
    and r3: "det3 ((a, b, ?p1), (d, e, ?p2), (g, h, ?p3)) = z * D"
    by (simp_all add: A D_def algebra_simps)
  have "solve3 A p = (x * D / D, y * D / D, z * D / D)"
    unfolding A p solve3.simps r1 r2 r3 D_def[symmetric, unfolded A] ..
  then show ?thesis
    using D by (simp add: q)
qed

section \<open>The claims\<close>

text \<open>
  Claim C1 says that after \<open>add_hop\<close> the next \<open>hamilton(k)\<close> reflects the added
  terms, as a rebuild from the current hopping list would. The code does not do so once
  \<open>hamilton\<close> has been called: the constructor gives the two-orbital model without
  hoppings; \<open>hamilton\<close> at the origin returns the zero matrix and leaves the cache marked
  valid; after \<open>add_hop\<close> of the term \<open>(0, 1, (0,0,0), 1)\<close> the call still returns the
  zero matrix, where a rebuild returns the matrix with entry 1 at \<open>(0, 1)\<close>, as does the
  call after an assignment of the longer list to the attribute \<open>_hop\<close>.
\<close>

theorem add_hop_leaves_cache_stale:
  "Model_init [0, 0] [] None None True None = Inr two_orbitals \<and>
   hamilton two_orbitals (0, 0, 0) = Inr ([[0, 0], [0, 0]], two_orbitals_cached) \<and>
   hamilton_result (add_hop two_orbitals_cached [(0, 1, (0, 0, 0), 1)]) (0, 0, 0) =
     Inr [[0, 0], [0, 0]] \<and>
   hamilton_rebuild (add_hop two_orbitals_cached [(0, 1, (0, 0, 0), 1)]) (0, 0, 0) =
     Inr [[0, 1], [0, 0]] \<and>
   hamilton_result
     (setattr_hop two_orbitals_cached (hop two_orbitals_cached @ [(0, 1, (0, 0, 0), 1)]))
     (0, 0, 0) = Inr [[0, 1], [0, 0]]"
  by (simp add: two_orbitals_def two_orbitals_cached_def setattr_hop_def eval_defs)

text \<open>
  Claim C2 says that a supercell hopping that is kept satisfies
  \<open>new_G * dim + wrapped destination = uc0 + G\<close> in every component. The code breaks
  this for a destination with a negative component that is no multiple of \<open>dim\<close>: with
  \<open>dim = (2,1,1)\<close>, \<open>uc0 = (0,0,0)\<close> and \<open>G = (-1,0,0)\<close> the destination is
  \<open>(-1,0,0)\<close>, wrapped to \<open>(1,0,0)\<close>, and the emitted \<open>new_G\<close> is \<open>(0,0,0)\<close> where
  \<open>(-1,0,0)\<close> is needed. The term is the conjugate the constructor adds to the chain
  with the one hopping \<open>(0, 0, (1,0,0), 1)\<close>; the supercell of that chain is returned
  with both hoppings out of the first cell inside the supercell, and its Hamiltonian at
  \<open>k = (1/4, 0, 0)\<close> is not Hermitian.
\<close>

theorem supercell_hop_rounds_toward_zero:
  "supercell_hop 1 (2, 1, 1) (True, True, True) (0, 0, 0) (0, 0, (- 1, 0, 0), 1) =
     Inr (Some (0, 1, (0, 0, 0), 1)) \<and>
   vadd (0, 0, 0) (- 1, 0, 0) = (- 1, 0, 0) \<and>
   ((- 1) mod 2, 0 mod 1, 0 mod 1) = (1 :: int, 0 :: int, 0 :: int) \<and>
   vadd (0 * 2, 0 * 1, 0 * 1) (1, 0, 0) \<noteq> (- 1, 0, 0) \<and>
   Model_init [0] [(0, 0, (1, 0, 0), 1)] None None True None = Inr chain \<and>
   supercell chain (2, 1, 1) (True, True, True) None = Inr chain_supercell \<and>
   hamilton_result chain_supercell (1 / 4, 0, 0) = Inr [[0, 2], [1 + \<i>, 0]] \<and>
   conj_transpose [[0, 2], [1 + \<i>, 0]] = [[0, 1 - \<i>], [2, 0]]"
proof -
  have h: "supercell_hop 1 (2, 1, 1) (True, True, True) (0, 0, 0) (0, 0, (- 1, 0, 0), 1) =
     Inr (Some (0, 1, (0, 0, 0), 1))"
    by (simp add: full_idx_def trunc_div_def)
  have a: "Model_init [0] [(0, 0, (1, 0, 0), 1)] None None True None = Inr chain"
    by (simp add: chain_def Model_init_def int64_neg_def)
  have b: "supercell chain (2, 1, 1) (True, True, True) None = Inr chain_supercell"
    by (simp add: chain_def chain_supercell_def Model_init_def supercell_def sub_cells.simps
        full_idx_def trunc_div_def cell_on_site_def np_iadd_def List.map_filter_def upto.simps)
  have c: "hamilton_result chain_supercell (1 / 4, 0, 0) = Inr [[0, 2], [1 + \<i>, 0]]"
    by (simp add: chain_supercell_def eval_defs phase_quarter)
  have d: "conj_transpose [[0, 2], [1 + \<i>, 0]] = [[0, 1 - \<i>], [2, 0]]"
    by (simp add: conj_transpose_def upt_rec)
  from h a b c d show ?thesis by simp
qed

text \<open>
  Claim C3 says that \<open>hamilton(k)\<close> returns \<open>D + \<Sum>\<^sub>G M\<^sub>G \<cdot> exp(2\<pi>i G\<cdot>k)\<close> for every
  model with in-range hopping indices, \<open>M\<^sub>G\<close> summing \<open>t\<close> over all stored hopping terms.
  For an object whose cache is valid the code does so (lemma \<open>hamilton_result_spec\<close>).
  It does not for the object of claim C1: after \<open>hamilton\<close> has been called, \<open>add_hop\<close>
  stores the term \<open>(0, 1, (0,0,0), 1)\<close> and leaves the cache marked valid; the indices
  are in range, \<open>hamilton\<close> at the origin returns the zero matrix, and the sum over the
  stored terms has the entry 1 at \<open>(0, 1)\<close>.
\<close>

theorem hamilton_misses_added_terms:
  "Model_init [0, 0] [] None None True None = Inr two_orbitals \<and>
   hamilton two_orbitals (0, 0, 0) = Inr ([[0, 0], [0, 0]], two_orbitals_cached) \<and>
   hop (add_hop two_orbitals_cached [(0, 1, (0, 0, 0), 1)]) = [(0, 1, (0, 0, 0), 1)] \<and>
   list_all (in_range (length (on_site (add_hop two_orbitals_cached [(0, 1, (0, 0, 0), 1)]))))
     (hop (add_hop two_orbitals_cached [(0, 1, (0, 0, 0), 1)])) \<and>
   hamilton_result (add_hop two_orbitals_cached [(0, 1, (0, 0, 0), 1)]) (0, 0, 0) =
     Inr [[0, 0], [0, 0]] \<and>
   hamilton_spec (add_hop two_orbitals_cached [(0, 1, (0, 0, 0), 1)]) (0, 0, 0) =
     [[0, 1], [0, 0]]"
proof -
  let ?m = "add_hop two_orbitals_cached [(0, 1, (0, 0, 0), 1)]"
  have a: "Model_init [0, 0] [] None None True None = Inr two_orbitals"
    by (simp add: two_orbitals_def Model_init_def)
  have b: "hamilton two_orbitals (0, 0, 0) = Inr ([[0, 0], [0, 0]], two_orbitals_cached)"
    by (simp add: two_orbitals_def two_orbitals_cached_def eval_defs)
  have c: "hop ?m = [(0, 1, (0, 0, 0), 1)]" "length (on_site ?m) = 2"
    by (simp_all add: two_orbitals_def two_orbitals_cached_def add_hop_def)
  have d: "list_all (in_range (length (on_site ?m))) (hop ?m)"
    by (simp add: c in_range_def)
  have e: "hamilton_result ?m (0, 0, 0) = Inr [[0, 0], [0, 0]]"
    by (simp add: two_orbitals_def two_orbitals_cached_def eval_defs)
  have f: "hamilton_spec ?m (0, 0, 0) = [[0, 1], [0, 0]]"
    by (simp add: hamilton_spec_def c spec_D_def entry_sum_def hop_G_def phase_zero upt_rec)
      (simp add: two_orbitals_def two_orbitals_cached_def add_hop_def)
  from a b c(1) d e f show ?thesis by simp
qed






text \<open>
  Claim C6 says that \<open>trs()\<close> returns a model with twice the orbitals for every model.
  For a model with at least one orbital it does (lemma \<open>trs_nonempty\<close> gives the model
  returned). For the model without orbitals, which the constructor accepts, \<open>trs()\<close>
  raises the constructor's \<open>ValueError\<close> on the length of \<open>pos\<close>.
\<close>

theorem trs_empty_model_raises:
  "Model_init [] [] None None True None = Inr no_orbitals \<and>
   trs no_orbitals = Inl PosLengthError"
  by (simp add: no_orbitals_def Model_init_def trs_def)

text \<open>
  Claim C7, amended. \<open>change_uc(uc)\<close> raises the \<open>ValueError\<close> that reports the
  determinant exactly when the determinant \<open>la.det\<close> computes for \<open>uc\<close>, in floating
  point, is not 1, and the determinant reported is that one. When it is 1, \<open>change_uc\<close>
  returns a new model if every stored hopping index is a valid index into the list of
  orbitals (\<open>-N \<le> i < N\<close>), and raises Python's \<open>IndexError\<close> otherwise. The model has as
  many positions as orbitals, as every object the constructor returns has. The statement
  holds for every function in the place of \<open>la.det\<close> and of \<open>la.solve\<close>.
\<close>

theorem change_uc_det_check:
  assumes "length (pos m) = length (on_site m)"
  shows "(la_det u \<noteq> 1 \<longrightarrow> change_uc_with la_det la_solve m u = Inl (DetError (la_det u))) \<and>
         (la_det u = 1 \<longrightarrow>
            (if list_all (valid_hop (length (on_site m))) (hop m)
             then \<exists>m'. change_uc_with la_det la_solve m u = Inr m'
             else change_uc_with la_det la_solve m u = Inl IndexError))"
  using assms change_uc_det[of la_det u la_solve m]
    change_uc_unit_det_valid[of m la_det u la_solve]
    change_uc_unit_det_invalid[of m la_det u la_solve]
  by simp

theorem change_uc_det_check_witness:
  "length (pos far_orbital) = length (on_site far_orbital) \<and>
   det3 ((2, 0, 0), (0, 1, 0), (0, 0, 1)) \<noteq> 1 \<and>
   change_uc_with det3 solve3 far_orbital ((2, 0, 0), (0, 1, 0), (0, 0, 1)) = Inl (DetError 2) \<and>
   det3 identity3 = 1 \<and>
   list_all (valid_hop (length (on_site far_orbital))) (hop far_orbital) \<and>
   (\<exists>m'. change_uc_with det3 solve3 far_orbital identity3 = Inr m') \<and>
   length (pos dangling_hop) = length (on_site dangling_hop) \<and>
   \<not> list_all (valid_hop (length (on_site dangling_hop))) (hop dangling_hop) \<and>
   change_uc_with det3 solve3 dangling_hop identity3 = Inl IndexError"
proof -
  have l: "length (pos far_orbital) = length (on_site far_orbital)"
    by (simp add: far_orbital_def)
  have l': "length (pos dangling_hop) = length (on_site dangling_hop)"
    by (simp add: dangling_hop_def)
  have d2: "det3 ((2, 0, 0), (0, 1, 0), (0, 0, 1)) = 2"
    by simp
  have d1: "det3 identity3 = 1"
    by (rule det3_identity3)
  have v: "list_all (valid_hop (length (on_site far_orbital))) (hop far_orbital)"
    by (simp add: far_orbital_def valid_hop_def)
  have nv: "\<not> list_all (valid_hop (length (on_site dangling_hop))) (hop dangling_hop)"
    by (simp add: dangling_hop_def valid_hop_def)
  show ?thesis
    using change_uc_det_check[OF l, of det3 "((2, 0, 0), (0, 1, 0), (0, 0, 1))" solve3]
      change_uc_det_check[OF l, of det3 identity3 solve3]
      change_uc_det_check[OF l', of det3 identity3 solve3] l l' d1 d2 v nv
    by simp
qed

text \<open>
  The claim as stated fails for a model with a hopping index out of range, which neither
  the constructor nor \<open>add_hop\<close> rejects: the determinant of the identity is 1 and
  \<open>change_uc\<close> raises \<open>IndexError\<close> instead of returning a model.
\<close>

theorem change_uc_unit_det_raises:
  "Model_init [0] [(0, 1, (0, 0, 0), 1)] None None False None = Inr dangling_hop \<and>
   det3 identity3 = 1 \<and>
   change_uc dangling_hop identity3 = Inl IndexError"
  by (simp add: dangling_hop_def Model_init_def identity3_def change_uc_def change_uc_with_def
      py_nth_def py_index_def)

text \<open>
  Claim C8, amended. For a model with as many positions as orbitals whose cache is valid
  and in which, for every stored hopping term, both orbital indices are valid and the
  positions of the two orbitals have the same component-wise floor (as when every
  position lies in \<open>[0,1)\<^sup>3\<close>), \<open>change_uc\<close> with the identity matrix returns a model
  whose \<open>hamilton(k)\<close> is the original model's \<open>hamilton(k)\<close> for every \<open>k\<close>.
\<close>

theorem change_uc_identity:
  assumes "length (pos m) = length (on_site m)"
    and "list_all (same_cell_hop (pos m)) (hop m)"
    and "cache_valid m"
  shows "\<exists>m'. change_uc m identity3 = Inr m' \<and> hamilton_result m' k = hamilton_result m k"
  using assms by (rule change_uc_identity_hamilton)

theorem change_uc_identity_witness:
  "length (pos (add_hop two_orbitals [(0, 1, (0, 0, 1), \<i>)])) =
     length (on_site (add_hop two_orbitals [(0, 1, (0, 0, 1), \<i>)])) \<and>
   list_all (same_cell_hop (pos (add_hop two_orbitals [(0, 1, (0, 0, 1), \<i>)])))
     (hop (add_hop two_orbitals [(0, 1, (0, 0, 1), \<i>)])) \<and>
   cache_valid (add_hop two_orbitals [(0, 1, (0, 0, 1), \<i>)]) \<and>
   (\<exists>m'. change_uc (add_hop two_orbitals [(0, 1, (0, 0, 1), \<i>)]) identity3 = Inr m' \<and>
      hamilton_result m' (1 / 3, 0, 1 / 5) =
      hamilton_result (add_hop two_orbitals [(0, 1, (0, 0, 1), \<i>)]) (1 / 3, 0, 1 / 5))"
proof -
  let ?m = "add_hop two_orbitals [(0, 1, (0, 0, 1), \<i>)]"
  have l: "length (pos ?m) = length (on_site ?m)"
    by (simp add: two_orbitals_def add_hop_def)
  have s: "list_all (same_cell_hop (pos ?m)) (hop ?m)"
    by (simp add: two_orbitals_def add_hop_def same_cell_hop_def py_nth_def py_index_def)
  have c: "cache_valid ?m"
    by (simp add: two_orbitals_def add_hop_def cache_valid_def)
  show ?thesis
    using change_uc_identity[OF l s c, of "(1 / 3, 0, 1 / 5)"] l s c by simp
qed

text \<open>
  The claim as stated fails when an orbital lies outside the home cell: with positions
  \<open>(0,0,0)\<close> and \<open>(1,0,0)\<close> the identity \<open>change_uc\<close> moves the second orbital back
  into the cell and adds \<open>(1,0,0)\<close> to the \<open>G\<close> of the hopping between them, and at
  \<open>k = (1/2, 0, 0)\<close> the entry \<open>(0, 1)\<close> of the Hamiltonian changes from 1 to -1.
\<close>

theorem change_uc_identity_shifts_G:
  "Model_init [0, 0] [(0, 1, (0, 0, 0), 1)] (Some [(0, 0, 0), (1, 0, 0)]) None False None =
     Inr far_orbital \<and>
   change_uc far_orbital identity3 = Inr far_orbital_rewrapped \<and>
   hamilton_result far_orbital (1 / 2, 0, 0) = Inr [[0, 1], [0, 0]] \<and>
   hamilton_result far_orbital_rewrapped (1 / 2, 0, 0) = Inr [[0, - 1], [0, 0]]"
proof -
  have a: "Model_init [0, 0] [(0, 1, (0, 0, 0), 1)] (Some [(0, 0, 0), (1, 0, 0)]) None False None =
     Inr far_orbital"
    by (simp add: far_orbital_def Model_init_def)
  have b: "change_uc far_orbital identity3 = Inr far_orbital_rewrapped"
    by (simp add: far_orbital_def far_orbital_rewrapped_def identity3_def change_uc_def
        change_uc_with_def py_nth_def py_index_def Model_init_def)
  have c: "hamilton_result far_orbital (1 / 2, 0, 0) = Inr [[0, 1], [0, 0]]"
    by (simp add: far_orbital_def eval_defs)
  have d: "hamilton_result far_orbital_rewrapped (1 / 2, 0, 0) = Inr [[0, - 1], [0, 0]]"
    by (simp add: far_orbital_def far_orbital_rewrapped_def eval_defs phase_half)
  from a b c d show ?thesis by simp
qed

text \<open>
  Claim C9. While the cache is rebuilt, the \<open>G\<close> vector of every stored hopping term is
  found in the list of distinct \<open>G\<close> vectors, so neither \<open>_precompute\<close> nor \<open>hamilton\<close>
  ever raises the error \<open>G not found in G_list\<close>.
\<close>

theorem G_not_found_unreachable:
  "list_all (\<lambda>h. find_G (distinct_G (hop m)) (hop_G h) \<noteq> None) (hop m) \<and>
   precompute m \<noteq> Inl GNotFound \<and> hamilton m k \<noteq> Inl GNotFound"
proof -
  have "list_all (\<lambda>h. find_G (distinct_G (hop m)) (hop_G h) \<noteq> None) (hop m)"
    unfolding list_all_iff using find_G_distinct_G by blast
  then show ?thesis
    using precompute_finds_G hamilton_finds_G by blast
qed

text \<open>
  Claim C10. \<open>hamilton(k)\<close> does not depend on the orbital positions: two models that
  differ in \<open>pos\<close> only return the same matrix (or raise the same exception) for every
  \<open>k\<close>.
\<close>

theorem hamilton_ignores_pos:
  "hamilton_result (m\<lparr>pos := ps\<rparr>) k = hamilton_result m k"
  by (simp add: hamilton_result_def hamilton_pos split: sum.splits prod.splits)

end
